theory Spec2Isabelle
  imports Main
begin

section \<open>The remote document API, as the script sees it\<close>

text \<open>
  The script talks to a remote workspace through a client object \<open>notion\<close>. A call either
  throws (an error with a message) or returns a response object. The client is a parameter of
  the model: its answers are whatever the remote gives. Cursors are opaque to the script, so
  their type is a parameter as well. The two reading calls are functions of their request:
  the tree builder retrieves and lists a node once at most (the visited set sees to it), so
  one traversal never asks the same thing twice unless the remote hands out a cursor twice.
\<close>

text \<open>
  An error is one the remote call throws, or the \<open>TypeError\<close> of a member access on
  \<open>undefined\<close>.
\<close>

datatype error = ApiError string | TypeError string

record rich_text =
  plain_text :: string

text \<open>A property value of a page: its \<open>type\<close> and, for a title property, the \<open>title\<close> array.\<close>

record property =
  prop_type :: string
  prop_title :: "rich_text list option"

text \<open>
  The object \<open>pages.retrieve\<close> answers with. The remote answers either a full page object or
  a partial one, which has the \<open>object\<close> field and the id but neither \<open>properties\<close> nor
  \<open>last_edited_time\<close>: a field the object does not have is \<open>None\<close> (\<open>undefined\<close>).
  \<open>properties\<close> is listed in the order of \<open>Object.entries\<close>; a member access
  \<open>page.properties.k\<close> is \<open>map_of\<close>.
\<close>

record page =
  object :: string
  properties :: "(string \<times> property) list option"
  last_edited_time :: "string option"

text \<open>
  A block of a children listing is a tagged union on \<open>block.type\<close>: a \<open>child_page\<close> and a
  \<open>child_database\<close> block carry a title, every other block only its type name.
\<close>

datatype block_payload =
    Child_page string
  | Child_database string
  | Other_block string

record remote_block =
  block_id :: string
  payload :: block_payload

record 'c list_response =
  results :: "remote_block list"
  has_more :: bool
  next_cursor :: "'c option"

text \<open>
  \<open>pages_retrieve pageId\<close> is \<open>notion.pages.retrieve({page_id})\<close>;
  \<open>blocks_children_list blockId startCursor pageSize\<close> is \<open>notion.blocks.children.list\<close>.
\<close>

record 'c client =
  pages_retrieve :: "string \<Rightarrow> error + page"
  blocks_children_list :: "string \<Rightarrow> 'c option \<Rightarrow> nat \<Rightarrow> error + 'c list_response"

section \<open>Configuration\<close>

definition MAX_DEPTH :: nat where
  "MAX_DEPTH = 4"

section \<open>Page fetcher\<close>

record page_details =
  pd_id :: string
  pd_title :: string
  pd_url :: string
  pd_type :: string
  pd_lastEdited :: "string option"

text \<open>\<open>value.title?.[0]?.plain_text\<close>: \<open>None\<close> is \<open>undefined\<close>.\<close>

definition first_plain_text :: "property \<Rightarrow> string option" where
  "first_plain_text v =
     (case prop_title v of
        None \<Rightarrow> None
      | Some [] \<Rightarrow> None
      | Some (t # _) \<Rightarrow> Some (plain_text t))"

text \<open>The same through an optional property (\<open>page.properties.k?.title?.[0]?.plain_text\<close>).\<close>

definition member_plain_text :: "property option \<Rightarrow> string option" where
  "member_plain_text p = (case p of None \<Rightarrow> None | Some v \<Rightarrow> first_plain_text v)"

text \<open>JavaScript truthiness of an optional string: defined and not empty.\<close>

definition truthy :: "string option \<Rightarrow> bool" where
  "truthy s = (case s of None \<Rightarrow> False | Some t \<Rightarrow> t \<noteq> [])"

text \<open>The \<open>for\<close> loop of \<open>extractTitle\<close> over \<open>Object.entries(page.properties)\<close>.\<close>

fun title_scan :: "(string \<times> property) list \<Rightarrow> string" where
  "title_scan [] = ''Untitled''"
| "title_scan ((key, v) # rest) =
     (if prop_type v = ''title'' \<and> truthy (first_plain_text v)
      then the (first_plain_text v)
      else title_scan rest)"

text \<open>
  \<open>extractTitle\<close> reads \<open>page.properties.title\<close> first, without \<open>?.\<close> after
  \<open>properties\<close>: on an object that has no \<open>properties\<close> this access throws a \<open>TypeError\<close>.
\<close>

definition extractTitle :: "page \<Rightarrow> error + string" where
  "extractTitle page =
     (case properties page of
        None \<Rightarrow> Inl (TypeError ''Cannot read properties of undefined'')
      | Some props \<Rightarrow>
          Inr (if truthy (member_plain_text (map_of props ''title''))
               then the (member_plain_text (map_of props ''title''))
               else if truthy (member_plain_text (map_of props ''Name''))
               then the (member_plain_text (map_of props ''Name''))
               else title_scan props))"

text \<open>\<open>`https://www.notion.so/${id.replace(/-/g, '')}`\<close>\<close>

definition notion_url :: "string \<Rightarrow> string" where
  "notion_url pageId = ''https://www.notion.so/'' @ filter (\<lambda>c. c \<noteq> CHR ''-'') pageId"

text \<open>
  \<open>None\<close> is the \<open>null\<close> of the \<open>catch\<close> branch, which catches whatever the \<open>try\<close> block
  throws: the error of the retrieval and the error of \<open>extractTitle\<close>.
\<close>

definition getPageDetails :: "'c client \<Rightarrow> string \<Rightarrow> page_details option" where
  "getPageDetails notion pageId =
     (case pages_retrieve notion pageId of
        Inl err \<Rightarrow> None
      | Inr page \<Rightarrow>
          (case extractTitle page of
             Inl err \<Rightarrow> None
           | Inr title \<Rightarrow>
               Some \<lparr> pd_id = pageId,
                      pd_title = title,
                      pd_url = notion_url pageId,
                      pd_type = object page,
                      pd_lastEdited = last_edited_time page \<rparr>))"

section \<open>Child lister\<close>

record child =
  child_id :: string
  child_title :: string
  child_type :: string

text \<open>The inner \<open>for\<close> loop over \<open>response.results\<close>, pushing onto \<open>children\<close>.\<close>

fun push_results :: "child list \<Rightarrow> remote_block list \<Rightarrow> child list" where
  "push_results children [] = children"
| "push_results children (block # rest) =
     (case payload block of
        Child_page t \<Rightarrow>
          push_results
            (children @ [\<lparr> child_id = block_id block, child_title = t, child_type = ''page'' \<rparr>]) rest
      | Child_database t \<Rightarrow>
          push_results
            (children @ [\<lparr> child_id = block_id block, child_title = t, child_type = ''database'' \<rparr>])
            rest
      | Other_block ty \<Rightarrow> push_results children rest)"

text \<open>
  The \<open>while (hasMore)\<close> loop. It ends when a response has \<open>has_more = false\<close> or when a call
  throws (\<open>break\<close>); a remote that always answers \<open>has_more = true\<close> keeps it running, which is
  the value \<open>None\<close>.
\<close>

partial_function (option) getChildPages_loop ::
  "'c client \<Rightarrow> string \<Rightarrow> child list \<Rightarrow> 'c option \<Rightarrow> child list option" where
  "getChildPages_loop notion pageId children startCursor =
     (case blocks_children_list notion pageId startCursor 100 of
        Inl err \<Rightarrow> Some children
      | Inr response \<Rightarrow>
          (if has_more response
           then getChildPages_loop notion pageId (push_results children (results response))
                  (next_cursor response)
           else Some (push_results children (results response))))"

declare getChildPages_loop.simps [code]

definition getChildPages :: "'c client \<Rightarrow> string \<Rightarrow> child list option" where
  "getChildPages notion pageId = getChildPages_loop notion pageId [] None"

section \<open>Tree builder\<close>

datatype tree =
  Node (node_id: string) (node_title: string) (node_url: string) (node_type: string)
       (lastEdited: "string option") (children: "tree list") (depth: nat)

text \<open>The leaf pushed for a \<open>database\<close> child.\<close>

definition database_leaf :: "child \<Rightarrow> nat \<Rightarrow> tree" where
  "database_leaf c d =
     Node (child_id c)
          (if child_title c = [] then ''Untitled Database'' else child_title c)
          (notion_url (child_id c))
          ''database''
          None
          []
          (d + 1)"

text \<open>
  \<open>buildSitemapTree\<close> returns the tree (or \<open>null\<close>) and leaves its marks in the shared
  \<open>visited\<close> set, which is returned with it. \<open>buildChildren\<close> is its \<open>for\<close> loop over
  \<open>childItems\<close>. The outer \<open>None\<close> is a run that never returns, because a child listing does not.
\<close>

function buildSitemapTree ::
    "'c client \<Rightarrow> string \<Rightarrow> nat \<Rightarrow> string set \<Rightarrow> (tree option \<times> string set) option"
  and buildChildren ::
    "'c client \<Rightarrow> child list \<Rightarrow> nat \<Rightarrow> string set \<Rightarrow> tree list \<Rightarrow> (tree list \<times> string set) option"
where
  "buildSitemapTree notion pageId d visited =
     (if d > MAX_DEPTH \<or> pageId \<in> visited then Some (None, visited)
      else
        (case getPageDetails notion pageId of
           None \<Rightarrow> Some (None, insert pageId visited)
         | Some pageDetails \<Rightarrow>
             (case getChildPages notion pageId of
                None \<Rightarrow> None
              | Some childItems \<Rightarrow>
                  (case buildChildren notion childItems d (insert pageId visited) [] of
                     None \<Rightarrow> None
                   | Some (cs, visited') \<Rightarrow>
                       Some (Some (Node (pd_id pageDetails) (pd_title pageDetails)
                                     (pd_url pageDetails) (pd_type pageDetails)
                                     (pd_lastEdited pageDetails) cs d),
                             visited')))))"
| "buildChildren notion [] d visited cs = Some (cs, visited)"
| "buildChildren notion (c # rest) d visited cs =
     (if child_type c = ''page'' then
        (case buildSitemapTree notion (child_id c) (d + 1) visited of
           None \<Rightarrow> None
         | Some (childTree, visited') \<Rightarrow>
             buildChildren notion rest d visited'
               (case childTree of None \<Rightarrow> cs | Some t \<Rightarrow> cs @ [t]))
      else if child_type c = ''database'' then
        buildChildren notion rest d visited (cs @ [database_leaf c d])
      else buildChildren notion rest d visited cs)"
  by pat_completeness auto
termination
  by (relation "measures
        [\<lambda>x. case x of Inl (n, p, d, v) \<Rightarrow> MAX_DEPTH + 2 - d
                      | Inr (n, cs, d, v, acc) \<Rightarrow> MAX_DEPTH + 1 - d,
         \<lambda>x. case x of Inl _ \<Rightarrow> 0 | Inr _ \<Rightarrow> 1,
         \<lambda>x. case x of Inl _ \<Rightarrow> 0 | Inr (n, cs, d, v, acc) \<Rightarrow> length cs]")
     (auto simp: MAX_DEPTH_def)

text \<open>\<open>main\<close> calls \<open>buildSitemapTree(ROOT_PAGE_ID)\<close>: depth \<open>0\<close> and a fresh \<open>visited\<close> set.\<close>

definition sitemapTree :: "'c client \<Rightarrow> string \<Rightarrow> tree option option" where
  "sitemapTree notion rootId = map_option fst (buildSitemapTree notion rootId 0 {})"

section \<open>Renderer\<close>

text \<open>
  A rich-text item of a display block: its content, the optional link and the optional
  annotations. A display block is one of the four kinds the script writes.
\<close>

record text_item =
  content :: string
  link :: "string option"
  bold :: "bool option"
  italic :: "bool option"
  color :: "string option"

datatype block =
    Heading_1 "text_item list"
  | Bulleted_list_item "text_item list"
  | Callout "text_item list" string string
  | Divider

text \<open>The emoji literals of the source, as their UTF-8 bytes.\<close>

definition emoji_office :: string where
  "emoji_office = [CHR 0xF0, CHR 0x9F, CHR 0x8F, CHR 0xA2]"

definition emoji_folder :: string where
  "emoji_folder = [CHR 0xF0, CHR 0x9F, CHR 0x93, CHR 0x81]"

definition emoji_page :: string where
  "emoji_page = [CHR 0xF0, CHR 0x9F, CHR 0x93, CHR 0x84]"

definition emoji_clip :: string where
  "emoji_clip = [CHR 0xF0, CHR 0x9F, CHR 0x93, CHR 0x8E]"

definition emoji_bullet :: string where
  "emoji_bullet = [CHR 0xE2, CHR 0x80, CHR 0xA2]"

definition emoji_card_box :: string where
  "emoji_card_box = [CHR 0xF0, CHR 0x9F, CHR 0x97, CHR 0x83, CHR 0xEF, CHR 0xB8, CHR 0x8F]"

definition emoji_map :: string where
  "emoji_map = [CHR 0xF0, CHR 0x9F, CHR 0x97, CHR 0xBA, CHR 0xEF, CHR 0xB8, CHR 0x8F]"

definition emojis :: "string list" where
  "emojis = [emoji_office, emoji_folder, emoji_page, emoji_clip, emoji_bullet]"

definition getEmojiForDepth :: "nat \<Rightarrow> string \<Rightarrow> string" where
  "getEmojiForDepth d ty =
     (if ty = ''database'' then emoji_card_box
      else emojis ! min d (length emojis - 1))"

text \<open>The block pushed for the root (\<open>depth === 0\<close>).\<close>

definition heading_block :: "string \<Rightarrow> tree \<Rightarrow> block" where
  "heading_block emoji tree =
     Heading_1 [\<lparr> content = emoji @ '' '' @ node_title tree, link = None,
                  bold = None, italic = None, color = None \<rparr>]"

text \<open>The block pushed for a deeper node; \<open>.filter(Boolean)\<close> drops the \<open>null\<close> of a page.\<close>

definition bullet_block :: "string \<Rightarrow> tree \<Rightarrow> nat \<Rightarrow> block" where
  "bullet_block emoji tree d =
     Bulleted_list_item
       ([\<lparr> content = emoji @ '' '', link = None,
            bold = None, italic = None, color = None \<rparr>,
         \<lparr> content = node_title tree, link = Some (node_url tree),
            bold = Some (d = 1), italic = None, color = None \<rparr>]
        @ (if node_type tree = ''database''
           then [\<lparr> content = '' [DB]'', link = None,
                    bold = None, italic = Some True, color = Some ''gray'' \<rparr>]
           else []))"

function treeToNotionBlocks :: "tree option \<Rightarrow> nat \<Rightarrow> block list" where
  "treeToNotionBlocks None d = []"
| "treeToNotionBlocks (Some tree) d =
     (let emoji = getEmojiForDepth d (node_type tree);
          blocks = [if d = 0 then heading_block emoji tree else bullet_block emoji tree d]
      in foldl (\<lambda>blocks child. blocks @ treeToNotionBlocks (Some child) (d + 1))
           blocks (children tree))"
  by pat_completeness auto
termination
proof (relation "measure (\<lambda>(t, d). case t of None \<Rightarrow> 0 | Some u \<Rightarrow> size u)")
  show "wf (measure (\<lambda>(t, d). case t of None \<Rightarrow> 0 | Some u \<Rightarrow> size u))"
    by simp
next
  fix tree :: tree and d :: nat and emoji blocks and child :: tree
  assume "child \<in> set (children tree)"
  then have "size child < size tree"
    by (cases tree) (auto simp: less_Suc_eq_le intro: size_list_estimation')
  then show "((Some child, d + 1), (Some tree, d))
      \<in> measure (\<lambda>(t, d). case t of None \<Rightarrow> 0 | Some u \<Rightarrow> size u)"
    by simp
qed

function countPages :: "tree option \<Rightarrow> nat" where
  "countPages None = 0"
| "countPages (Some tree) =
     1 + foldl (\<lambda>sum child. sum + countPages (Some child)) 0 (children tree)"
  by pat_completeness auto
termination
proof (relation "measure (\<lambda>t. case t of None \<Rightarrow> 0 | Some u \<Rightarrow> size u)")
  show "wf (measure (\<lambda>t. case t of None \<Rightarrow> 0 | Some u \<Rightarrow> size u))"
    by simp
next
  fix tree :: tree and child :: tree
  assume "child \<in> set (children tree)"
  then have "size child < size tree"
    by (cases tree) (auto simp: less_Suc_eq_le intro: size_list_estimation')
  then show "(Some child, Some tree) \<in> measure (\<lambda>t. case t of None \<Rightarrow> 0 | Some u \<Rightarrow> size u)"
    by simp
qed

section \<open>Publisher\<close>

text \<open>
  The target page (\<open>SITEMAP_PAGE_ID\<close>) on the remote: the child blocks it had and still has,
  and the log of the mutations done on it, in the order they were done. The content of the
  page is \<open>existing\<close> followed by the appended batches.
\<close>

datatype call = Deleted string | Appended "block list"

record target =
  existing :: "remote_block list"
  log :: "call list"

text \<open>
  The remote's side of the three calls of the publisher. Which calls throw is a parameter:
  the listing, the deletion of a given block, the append after a given history. A listing
  without \<open>start_cursor\<close> and \<open>page_size\<close> answers the first page, of the remote's default size
  \<open>default_page_size\<close>; a deletion removes the block; an append adds the batch at the end.
\<close>

record service =
  list_throws :: "error option"
  delete_throws :: "string \<Rightarrow> error option"
  append_throws :: "call list \<Rightarrow> error option"

definition default_page_size :: nat where
  "default_page_size = 100"

text \<open>One page of a listing of \<open>bs\<close>, from offset \<open>off\<close>; cursors are offsets.\<close>

definition list_slice :: "remote_block list \<Rightarrow> nat \<Rightarrow> nat \<Rightarrow> nat list_response" where
  "list_slice bs off n =
     \<lparr> results = take n (drop off bs),
       has_more = (off + n < length bs),
       next_cursor = (if off + n < length bs then Some (off + n) else None) \<rparr>"

definition target_list :: "service \<Rightarrow> target \<Rightarrow> error + nat list_response" where
  "target_list svc st =
     (case list_throws svc of
        Some err \<Rightarrow> Inl err
      | None \<Rightarrow> Inr (list_slice (existing st) 0 default_page_size))"

definition blocks_delete :: "service \<Rightarrow> target \<Rightarrow> string \<Rightarrow> error + target" where
  "blocks_delete svc st bid =
     (case delete_throws svc bid of
        Some err \<Rightarrow> Inl err
      | None \<Rightarrow>
          Inr (st\<lparr> existing := filter (\<lambda>b. block_id b \<noteq> bid) (existing st),
                   log := log st @ [Deleted bid] \<rparr>))"

definition blocks_children_append :: "service \<Rightarrow> target \<Rightarrow> block list \<Rightarrow> error + target" where
  "blocks_children_append svc st batch =
     (case append_throws svc (log st) of
        Some err \<Rightarrow> Inl err
      | None \<Rightarrow> Inr (st\<lparr> log := log st @ [Appended batch] \<rparr>))"

text \<open>How a run of the publisher ends: it returns, or it throws the error it caught.\<close>

datatype outcome = Returned | Threw error

text \<open>The deletion loop: an error of one deletion is logged as a warning and the loop goes on.\<close>

fun delete_existing :: "service \<Rightarrow> remote_block list \<Rightarrow> target \<Rightarrow> target" where
  "delete_existing svc [] st = st"
| "delete_existing svc (block # rest) st =
     (case blocks_delete svc st (block_id block) of
        Inl err \<Rightarrow> delete_existing svc rest st
      | Inr st' \<Rightarrow> delete_existing svc rest st')"

definition metadataBlocks :: "string \<Rightarrow> block list" where
  "metadataBlocks now =
     [Callout [\<lparr> content = ''Auto-generated sitemap '' @ emoji_bullet @ '' Last updated: '' @ now,
                  link = None, bold = None, italic = None, color = None \<rparr>]
        emoji_map ''blue_background'',
      Divider]"

text \<open>
  The append loop \<open>for (let i = 0; i < allBlocks.length; i += 100)\<close>; \<open>slice(i, i + 100)\<close> is
  \<open>take 100 (drop i allBlocks)\<close>. An error of an append leaves the loop and the function.
\<close>

function append_batches :: "service \<Rightarrow> block list \<Rightarrow> nat \<Rightarrow> target \<Rightarrow> outcome \<times> target" where
  "append_batches svc allBlocks i st =
     (if i < length allBlocks then
        (case blocks_children_append svc st (take 100 (drop i allBlocks)) of
           Inl err \<Rightarrow> (Threw err, st)
         | Inr st' \<Rightarrow> append_batches svc allBlocks (i + 100) st')
      else (Returned, st))"
  by pat_completeness auto
termination
  by (relation "measure (\<lambda>(svc, allBlocks, i, st). length allBlocks - i)") auto

text \<open>
  \<open>now\<close> is the text of \<open>new Date().toLocaleString('es-ES')\<close> at the time of the run.
\<close>

definition updateSitemapPage :: "service \<Rightarrow> string \<Rightarrow> block list \<Rightarrow> target \<Rightarrow> outcome \<times> target" where
  "updateSitemapPage svc now blocks st =
     (case target_list svc st of
        Inl err \<Rightarrow> (Threw err, st)
      | Inr existingBlocks \<Rightarrow>
          append_batches svc (metadataBlocks now @ blocks) 0
            (delete_existing svc (results existingBlocks) st))"

text \<open>The batches a run has appended, in order, and the content they add to the page.\<close>

fun appended :: "call list \<Rightarrow> block list list" where
  "appended [] = []"
| "appended (Deleted bid # rest) = appended rest"
| "appended (Appended batch # rest) = batch # appended rest"

section \<open>A reference remote for the listing endpoint\<close>

text \<open>
  A remote that holds the child blocks \<open>kids pageId\<close> of every node and answers a listing with
  the page of the requested size at the cursor's offset, unless the call at that offset is
  one that fails (\<open>fault pageId off\<close>).
\<close>

definition serve_list ::
  "(string \<Rightarrow> remote_block list) \<Rightarrow> (string \<Rightarrow> nat \<Rightarrow> bool) \<Rightarrow>
   string \<Rightarrow> nat option \<Rightarrow> nat \<Rightarrow> error + nat list_response" where
  "serve_list kids fault pageId cursor n =
     (let off = (case cursor of None \<Rightarrow> 0 | Some k \<Rightarrow> k)
      in if fault pageId off then Inl (ApiError ''request failed'')
         else Inr (list_slice (kids pageId) off n))"

text \<open>The children the lister keeps of a block sequence, in the sequence's order.\<close>

definition child_of_block :: "remote_block \<Rightarrow> child option" where
  "child_of_block b =
     (case payload b of
        Child_page t \<Rightarrow> Some \<lparr> child_id = block_id b, child_title = t, child_type = ''page'' \<rparr>
      | Child_database t \<Rightarrow>
          Some \<lparr> child_id = block_id b, child_title = t, child_type = ''database'' \<rparr>
      | Other_block ty \<Rightarrow> None)"

definition pages_and_databases :: "remote_block list \<Rightarrow> child list" where
  "pages_and_databases bs = List.map_filter child_of_block bs"

section \<open>Notions the properties are stated with\<close>



text \<open>
  The title a list of properties shows. A property has a text when its \<open>title\<close> array is
  there, is not empty and starts with a non-empty plain text. The title is the text of the
  property named \<open>title\<close> if that has one, else the text of the property named \<open>Name\<close> if
  that has one, else the text of the first property of type \<open>title\<close> that has one, else
  \<open>Untitled\<close>.
\<close>

definition has_text :: "property \<Rightarrow> bool" where
  "has_text v = (case prop_title v of Some (t # ts) \<Rightarrow> plain_text t \<noteq> [] | _ \<Rightarrow> False)"

definition text_of :: "property \<Rightarrow> string" where
  "text_of v = (case prop_title v of Some (t # ts) \<Rightarrow> plain_text t | _ \<Rightarrow> [])"

definition named_text :: "(string \<times> property) list \<Rightarrow> string \<Rightarrow> string option" where
  "named_text props k =
     (case map_of props k of
        None \<Rightarrow> None
      | Some v \<Rightarrow> if has_text v then Some (text_of v) else None)"

definition shown_title :: "(string \<times> property) list \<Rightarrow> string" where
  "shown_title props =
     (case named_text props ''title'' of
        Some t \<Rightarrow> t
      | None \<Rightarrow>
          (case named_text props ''Name'' of
             Some t \<Rightarrow> t
           | None \<Rightarrow>
               (case find (\<lambda>(k, v). prop_type v = ''title'' \<and> has_text v) props of
                  Some (k, v) \<Rightarrow> text_of v
                | None \<Rightarrow> ''Untitled'')))"

text \<open>All nodes of a tree (each with its subtree), in preorder.\<close>

fun nodes :: "tree \<Rightarrow> tree list" where
  "nodes (Node i t u ty le cs dp) = Node i t u ty le cs dp # concat (map nodes cs)"

text \<open>The \<open>depth\<close> field of every node is the node's level below the root, the root being at \<open>d\<close>.\<close>

fun well_levelled :: "nat \<Rightarrow> tree \<Rightarrow> bool" where
  "well_levelled d (Node i t u ty le cs dp) =
     (dp = d \<and> (\<forall>c \<in> set cs. well_levelled (d + 1) c))"

text \<open>The ids of the page nodes of a tree: the nodes that are not \<open>database\<close> leaves.\<close>

definition page_ids :: "tree \<Rightarrow> string list" where
  "page_ids t = map node_id (filter (\<lambda>n. node_type n \<noteq> ''database'') (nodes t))"


text \<open>
  A node respects the depth cap: it is at depth \<open>MAX_DEPTH + 1\<close> at most, and at
  \<open>MAX_DEPTH + 1\<close> only as a \<open>database\<close> leaf.
\<close>

definition within_cap :: "tree \<Rightarrow> bool" where
  "within_cap n =
     (depth n \<le> MAX_DEPTH + 1 \<and>
      (depth n = MAX_DEPTH + 1 \<longrightarrow> node_type n = ''database'' \<and> children n = []))"

text \<open>Splitting a sequence into consecutive chunks of \<open>n\<close> elements, the last one possibly shorter.\<close>

fun chunks :: "nat \<Rightarrow> 'a list \<Rightarrow> 'a list list" where
  "chunks n xs = (if xs = [] \<or> n = 0 then [] else take n xs # chunks n (drop n xs))"

section \<open>Concrete remotes\<close>

text \<open>A page object with a \<open>title\<close> property.\<close>

definition titled_page :: "string \<Rightarrow> page" where
  "titled_page t =
     \<lparr> object = ''page'',
       properties =
         Some [(''title'', \<lparr> prop_type = ''title'', prop_title = Some [\<lparr> plain_text = t \<rparr>] \<rparr>)],
       last_edited_time = Some ''2024-05-01T10:00:00.000Z'' \<rparr>"

text \<open>
  A small workspace with a cycle (\<open>a-1\<close> lists \<open>root\<close> as a child page), two databases (one of
  them with a row page behind it on the remote, one with an empty title), a block that is
  neither a page nor a database, and a page \<open>a-2\<close> whose retrieval fails.
\<close>

definition demo_kids :: "string \<Rightarrow> remote_block list" where
  "demo_kids pageId =
     (if pageId = ''root'' then
        [\<lparr> block_id = ''h-1'', payload = Other_block ''paragraph'' \<rparr>,
         \<lparr> block_id = ''a-1'', payload = Child_page ''Alpha'' \<rparr>,
         \<lparr> block_id = ''d-1'', payload = Child_database ''Tasks'' \<rparr>,
         \<lparr> block_id = ''a-2'', payload = Child_page ''Beta'' \<rparr>]
      else if pageId = ''a-1'' then
        [\<lparr> block_id = ''root'', payload = Child_page ''Home'' \<rparr>,
         \<lparr> block_id = ''d-2'', payload = Child_database [] \<rparr>]
      else if pageId = ''d-1'' then
        [\<lparr> block_id = ''a-3'', payload = Child_page ''Row'' \<rparr>]
      else [])"

definition demo_client :: "nat client" where
  "demo_client =
     \<lparr> pages_retrieve =
         (\<lambda>pageId. if pageId = ''a-2'' then Inl (ApiError ''object_not_found'')
                    else Inr (titled_page (''Page '' @ pageId))),
       blocks_children_list = serve_list demo_kids (\<lambda>pageId off. False) \<rparr>"

text \<open>
  A chain of pages \<open>p0\<close>, ..., \<open>p4\<close>, each the only child of the one before; \<open>p4\<close> holds a
  database \<open>db\<close> and one more page \<open>p5\<close>.
\<close>

definition chain_kids :: "string \<Rightarrow> remote_block list" where
  "chain_kids pageId =
     (if pageId = ''p0'' then [\<lparr> block_id = ''p1'', payload = Child_page ''One'' \<rparr>]
      else if pageId = ''p1'' then [\<lparr> block_id = ''p2'', payload = Child_page ''Two'' \<rparr>]
      else if pageId = ''p2'' then [\<lparr> block_id = ''p3'', payload = Child_page ''Three'' \<rparr>]
      else if pageId = ''p3'' then [\<lparr> block_id = ''p4'', payload = Child_page ''Four'' \<rparr>]
      else if pageId = ''p4'' then
        [\<lparr> block_id = ''db'', payload = Child_database ''Tasks'' \<rparr>,
         \<lparr> block_id = ''p5'', payload = Child_page ''Five'' \<rparr>]
      else [])"

definition chain_client :: "nat client" where
  "chain_client =
     \<lparr> pages_retrieve = (\<lambda>pageId. Inr (titled_page pageId)),
       blocks_children_list = serve_list chain_kids (\<lambda>pageId off. False) \<rparr>"

text \<open>
  A node \<open>big\<close> with 101 child pages, and a remote whose second listing call for it (the one
  at offset 100) fails.
\<close>

definition big_kids :: "string \<Rightarrow> remote_block list" where
  "big_kids pageId =
     (if pageId = ''big''
      then map (\<lambda>i. \<lparr> block_id = i, payload = Child_page ''Sub'' \<rparr>)
             (take 101 (concat (map (\<lambda>a. map (\<lambda>b. [a, b]) ''abcdefghijk'') ''abcdefghijk'')))
      else [])"

definition flaky_client :: "nat client" where
  "flaky_client =
     \<lparr> pages_retrieve = (\<lambda>pageId. Inr (titled_page pageId)),
       blocks_children_list = serve_list big_kids (\<lambda>pageId off. off = 100) \<rparr>"

text \<open>The same node \<open>big\<close> on a remote without failures.\<close>

definition steady_client :: "nat client" where
  "steady_client =
     \<lparr> pages_retrieve = (\<lambda>pageId. Inr (titled_page pageId)),
       blocks_children_list = serve_list big_kids (\<lambda>pageId off. False) \<rparr>"

text \<open>The tree of the small workspace, from its root.\<close>

definition demo_tree :: tree where
  "demo_tree =
     Node ''root'' ''Page root'' ''https://www.notion.so/root'' ''page''
       (Some ''2024-05-01T10:00:00.000Z'')
       [Node ''a-1'' ''Page a-1'' ''https://www.notion.so/a1'' ''page''
          (Some ''2024-05-01T10:00:00.000Z'')
          [Node ''d-2'' ''Untitled Database'' ''https://www.notion.so/d2'' ''database'' None [] 2]
          1,
        Node ''d-1'' ''Tasks'' ''https://www.notion.so/d1'' ''database'' None [] 1]
       0"

text \<open>
  Target pages and services for the publisher: a service on which no call throws, one on
  which the deletion of the block \<open>old-2\<close> throws; a target page with two blocks, and one
  with the 101 blocks of \<open>big\<close>.
\<close>

definition quiet_service :: service where
  "quiet_service =
     \<lparr> list_throws = None, delete_throws = (\<lambda>bid. None), append_throws = (\<lambda>history. None) \<rparr>"

definition stubborn_service :: service where
  "stubborn_service =
     \<lparr> list_throws = None,
       delete_throws = (\<lambda>bid. if bid = ''old-2'' then Some (ApiError ''conflict'') else None),
       append_throws = (\<lambda>history. None) \<rparr>"

definition old_page :: target where
  "old_page =
     \<lparr> existing =
         [\<lparr> block_id = ''old-1'', payload = Other_block ''paragraph'' \<rparr>,
          \<lparr> block_id = ''old-2'', payload = Other_block ''synced_block'' \<rparr>],
       log = [] \<rparr>"

definition crowded_page :: target where
  "crowded_page = \<lparr> existing = big_kids ''big'', log = [] \<rparr>"

text \<open>
  A remote for the page fetcher: a page titled by its \<open>title\<close> property, one titled by its
  \<open>Name\<close> property, one whose \<open>title\<close> property is not a title and whose title property has
  another name, one whose only title is empty, a partial page object, and an id whose
  retrieval throws.
\<close>

definition title_client :: "nat client" where
  "title_client =
     \<lparr> pages_retrieve =
         (\<lambda>pageId.
            if pageId = ''t-1'' then Inr (titled_page ''Titled'')
            else if pageId = ''n-1'' then
              Inr \<lparr> object = ''page'',
                    properties =
                      Some [(''Status'', \<lparr> prop_type = ''select'', prop_title = None \<rparr>),
                            (''Name'', \<lparr> prop_type = ''title'',
                                         prop_title = Some [\<lparr> plain_text = ''Named'' \<rparr>,
                                                            \<lparr> plain_text = '' more'' \<rparr>] \<rparr>)],
                    last_edited_time = Some ''2024-05-02T08:30:00.000Z'' \<rparr>
            else if pageId = ''s-1'' then
              Inr \<lparr> object = ''page'',
                    properties =
                      Some [(''title'', \<lparr> prop_type = ''rich_text'', prop_title = None \<rparr>),
                            (''Empty'', \<lparr> prop_type = ''title'', prop_title = Some [] \<rparr>),
                            (''Label'', \<lparr> prop_type = ''title'',
                                          prop_title = Some [\<lparr> plain_text = ''Scanned'' \<rparr>] \<rparr>)],
                    last_edited_time = Some ''2024-05-03T09:00:00.000Z'' \<rparr>
            else if pageId = ''u-1'' then
              Inr \<lparr> object = ''page'',
                    properties =
                      Some [(''Name'', \<lparr> prop_type = ''title'',
                                         prop_title = Some [\<lparr> plain_text = [] \<rparr>] \<rparr>)],
                    last_edited_time = Some ''2024-05-04T09:00:00.000Z'' \<rparr>
            else if pageId = ''q-1'' then
              Inr \<lparr> object = ''page'', properties = None, last_edited_time = None \<rparr>
            else Inl (ApiError ''object_not_found'')),
       blocks_children_list = serve_list (\<lambda>pageId. []) (\<lambda>pageId off. False) \<rparr>"

section \<open>Properties of the renderer\<close>

declare treeToNotionBlocks.simps(2) [simp del] countPages.simps(2) [simp del]
declare buildSitemapTree.simps [simp del] buildChildren.simps(2) [simp del]
declare chunks.simps [simp del] append_batches.simps [simp del]

lemma foldl_append_concat:
  "foldl (\<lambda>acc x. acc @ f x) init xs = init @ concat (map f xs)"
  by (induction xs arbitrary: init) simp_all

lemma foldl_add_sum_list:
  "foldl (\<lambda>s x. s + g x) a xs = (a::nat) + sum_list (map g xs)"
  by (induction xs arbitrary: a) simp_all

text \<open>The two loops, unfolded once: a node's block, then the blocks of its children.\<close>

lemma treeToNotionBlocks_Some:
  "treeToNotionBlocks (Some tree) d =
     (if d = 0 then heading_block (getEmojiForDepth d (node_type tree)) tree
      else bullet_block (getEmojiForDepth d (node_type tree)) tree d)
     # concat (map (\<lambda>child. treeToNotionBlocks (Some child) (d + 1)) (children tree))"
  apply (subst treeToNotionBlocks.simps)
  apply (simp only: Let_def foldl_append_concat)
  apply (simp only: append_Cons append_Nil)
  done

lemma countPages_Some:
  "countPages (Some tree) =
     1 + sum_list (map (\<lambda>child. countPages (Some child)) (children tree))"
  apply (subst countPages.simps)
  apply (simp only: foldl_add_sum_list add_0)
  done

lemma length_blocks_Some:
  "length (treeToNotionBlocks (Some tree) d) = countPages (Some tree)"
proof (induction tree arbitrary: d)
  case (Node i t u ty le cs dp)
  have "(\<Sum>c\<leftarrow>cs. length (treeToNotionBlocks (Some c) (d + 1)))
      = (\<Sum>c\<leftarrow>cs. countPages (Some c))"
    using Node.IH by (intro arg_cong[where f = sum_list] map_cong) simp_all
  then show ?case
    by (subst treeToNotionBlocks_Some, subst countPages_Some)
       (simp add: length_concat comp_def)
qed

text \<open>
  C8. For every tree, \<open>null\<close> included, and at every starting depth (the default \<open>0\<close> among
  them), the renderer produces as many blocks as \<open>countPages\<close> counts nodes.
\<close>

theorem treeToNotionBlocks_length_countPages:
  "length (treeToNotionBlocks tree d) = countPages tree"
proof (cases tree)
  case None
  then show ?thesis by simp
next
  case (Some t)
  then show ?thesis by (simp only: length_blocks_Some)
qed







section \<open>Properties of the page fetcher\<close>

lemma first_plain_text_has_text:
  "truthy (first_plain_text v) = has_text v"
  "has_text v \<Longrightarrow> the (first_plain_text v) = text_of v"
  by (auto simp: truthy_def first_plain_text_def has_text_def text_of_def
           split: option.splits list.splits)

lemma member_plain_text_named:
  "truthy (member_plain_text (map_of props k)) = (named_text props k \<noteq> None)"
  "named_text props k = Some t \<Longrightarrow> the (member_plain_text (map_of props k)) = t"
proof -
  show "truthy (member_plain_text (map_of props k)) = (named_text props k \<noteq> None)"
    by (cases "map_of props k")
       (simp_all add: member_plain_text_def named_text_def first_plain_text_has_text(1)
          truthy_def[of None])
  show "named_text props k = Some t \<Longrightarrow> the (member_plain_text (map_of props k)) = t"
    by (cases "map_of props k")
       (auto simp: member_plain_text_def named_text_def first_plain_text_has_text(2)
             split: if_splits)
qed

lemma title_scan_find:
  "title_scan props =
     (case find (\<lambda>(k, v). prop_type v = ''title'' \<and> has_text v) props of
        Some (k, v) \<Rightarrow> text_of v
      | None \<Rightarrow> ''Untitled'')"
  by (induction props rule: title_scan.induct)
     (simp_all add: first_plain_text_has_text)

lemma extractTitle_shown:
  "extractTitle page =
     (case properties page of
        None \<Rightarrow> Inl (TypeError ''Cannot read properties of undefined'')
      | Some props \<Rightarrow> Inr (shown_title props))"
proof (cases "properties page")
  case None
  then show ?thesis by (simp add: extractTitle_def)
next
  case (Some props)
  have "(if truthy (member_plain_text (map_of props ''title''))
         then the (member_plain_text (map_of props ''title''))
         else if truthy (member_plain_text (map_of props ''Name''))
         then the (member_plain_text (map_of props ''Name''))
         else title_scan props) = shown_title props"
    by (cases "named_text props ''title''"; cases "named_text props ''Name''")
       (simp_all add: shown_title_def member_plain_text_named title_scan_find)
  with Some show ?thesis by (simp add: extractTitle_def)
qed

text \<open>
  C6, as the code has it. \<open>getPageDetails\<close> always returns to its caller. It returns \<open>null\<close>
  exactly when something in its \<open>try\<close> block throws: the retrieval, or the title extraction
  on an answered object that has no \<open>properties\<close>. When the retrieval answers an object with
  properties, it returns the details: the requested id, the title the properties show, the
  url of the id, the kind of the object as type, and the object's last edit time.
\<close>

theorem getPageDetails_null_iff_try_throws:
  "(getPageDetails notion pageId = None \<longleftrightarrow>
      (\<exists>err. pages_retrieve notion pageId = Inl err)
      \<or> (\<exists>page. pages_retrieve notion pageId = Inr page \<and> properties page = None))
   \<and> (\<forall>page props.
         pages_retrieve notion pageId = Inr page \<and> properties page = Some props \<longrightarrow>
           getPageDetails notion pageId =
             Some \<lparr> pd_id = pageId,
                    pd_title = shown_title props,
                    pd_url = ''https://www.notion.so/'' @ filter (\<lambda>c. c \<noteq> CHR ''-'') pageId,
                    pd_type = object page,
                    pd_lastEdited = last_edited_time page \<rparr>)"
  by (auto simp: getPageDetails_def extractTitle_shown notion_url_def
           split: sum.splits option.splits)

theorem getPageDetails_null_iff_try_throws_witness:
  "pages_retrieve title_client ''n-1'' =
       Inr \<lparr> object = ''page'',
             properties =
               Some [(''Status'', \<lparr> prop_type = ''select'', prop_title = None \<rparr>),
                     (''Name'', \<lparr> prop_type = ''title'',
                                  prop_title = Some [\<lparr> plain_text = ''Named'' \<rparr>,
                                                     \<lparr> plain_text = '' more'' \<rparr>] \<rparr>)],
             last_edited_time = Some ''2024-05-02T08:30:00.000Z'' \<rparr>
   \<and> getPageDetails title_client ''n-1'' =
       Some \<lparr> pd_id = ''n-1'', pd_title = ''Named'', pd_url = ''https://www.notion.so/n1'',
              pd_type = ''page'', pd_lastEdited = Some ''2024-05-02T08:30:00.000Z'' \<rparr>
   \<and> map (\<lambda>p. map_option pd_title (getPageDetails title_client p))
         [''t-1'', ''n-1'', ''s-1'', ''u-1'', ''q-1'', ''x-1'']
       = [Some ''Titled'', Some ''Named'', Some ''Scanned'', Some ''Untitled'', None, None]
   \<and> pages_retrieve title_client ''x-1'' = Inl (ApiError ''object_not_found'')"
proof -
  have r: "pages_retrieve title_client ''n-1'' =
       Inr \<lparr> object = ''page'',
             properties =
               Some [(''Status'', \<lparr> prop_type = ''select'', prop_title = None \<rparr>),
                     (''Name'', \<lparr> prop_type = ''title'',
                                  prop_title = Some [\<lparr> plain_text = ''Named'' \<rparr>,
                                                     \<lparr> plain_text = '' more'' \<rparr>] \<rparr>)],
             last_edited_time = Some ''2024-05-02T08:30:00.000Z'' \<rparr>"
    by (simp add: title_client_def)
  have x: "pages_retrieve title_client ''x-1'' = Inl (ApiError ''object_not_found'')"
    by (simp add: title_client_def)
  have s: "shown_title
             [(''Status'', \<lparr> prop_type = ''select'', prop_title = None \<rparr>),
              (''Name'', \<lparr> prop_type = ''title'',
                           prop_title = Some [\<lparr> plain_text = ''Named'' \<rparr>,
                                              \<lparr> plain_text = '' more'' \<rparr>] \<rparr>)] = ''Named''"
    by code_simp
  have m: "map (\<lambda>p. map_option pd_title (getPageDetails title_client p))
         [''t-1'', ''n-1'', ''s-1'', ''u-1'', ''q-1'', ''x-1'']
       = [Some ''Titled'', Some ''Named'', Some ''Scanned'', Some ''Untitled'', None, None]"
    by code_simp
  from getPageDetails_null_iff_try_throws[of title_client "''n-1''"] r s
  have "getPageDetails title_client ''n-1'' =
       Some \<lparr> pd_id = ''n-1'', pd_title = ''Named'', pd_url = ''https://www.notion.so/n1'',
              pd_type = ''page'', pd_lastEdited = Some ''2024-05-02T08:30:00.000Z'' \<rparr>"
    by simp
  with r x m show ?thesis by simp
qed

text \<open>
  The claim as it is written fails on a partial page object: the retrieval of \<open>q-1\<close> does
  not throw, and \<open>getPageDetails\<close> returns \<open>null\<close>, because the title extraction throws
  inside the same \<open>try\<close> block.
\<close>

theorem getPageDetails_null_without_throw:
  "pages_retrieve title_client ''q-1'' =
     Inr \<lparr> object = ''page'', properties = None, last_edited_time = None \<rparr>
   \<and> getPageDetails title_client ''q-1'' = None"
  by (simp add: title_client_def getPageDetails_def extractTitle_def)


section \<open>Properties of the child lister\<close>

lemma push_results_eq: "push_results acc bs = acc @ pages_and_databases bs"
  by (induction bs arbitrary: acc)
     (auto simp: pages_and_databases_def child_of_block_def
           split: block_payload.splits)

lemma pages_and_databases_append:
  "pages_and_databases (xs @ ys) = pages_and_databases xs @ pages_and_databases ys"
  by (simp add: pages_and_databases_def map_filter_def)

lemma loop_serve_prefix:
  "\<exists>n. getChildPages_loop \<lparr> pages_retrieve = r, blocks_children_list = serve_list kids fault \<rparr>
          pageId acc cur
        = Some (acc @ pages_and_databases
                  (take n (drop (case cur of None \<Rightarrow> 0 | Some k \<Rightarrow> k) (kids pageId))))"
proof (induction "length (kids pageId) - (case cur of None \<Rightarrow> 0 | Some k \<Rightarrow> k)"
       arbitrary: cur acc rule: less_induct)
  case less
  let ?C = "\<lparr> pages_retrieve = r, blocks_children_list = serve_list kids fault \<rparr>"
  let ?off = "case cur of None \<Rightarrow> 0 | Some k \<Rightarrow> k"
  let ?bs = "kids pageId"
  show ?case
  proof (cases "fault pageId ?off")
    case True
    then have "getChildPages_loop ?C pageId acc cur = Some acc"
      by (subst getChildPages_loop.simps) (simp add: serve_list_def Let_def)
    then have "getChildPages_loop ?C pageId acc cur
        = Some (acc @ pages_and_databases (take 0 (drop ?off ?bs)))"
      by (simp add: pages_and_databases_def)
    then show ?thesis by blast
  next
    case False
    note nf = this
    show ?thesis
    proof (cases "?off + 100 < length ?bs")
      case True
      have step: "getChildPages_loop ?C pageId acc cur
          = getChildPages_loop ?C pageId
              (acc @ pages_and_databases (take 100 (drop ?off ?bs))) (Some (?off + 100))"
        using nf True
        by (subst getChildPages_loop.simps)
           (simp add: serve_list_def list_slice_def push_results_eq Let_def)
      have "length ?bs - (case Some (?off + 100) of None \<Rightarrow> 0 | Some k \<Rightarrow> k)
          < length ?bs - ?off"
        using True by simp
      from less[OF this, of "acc @ pages_and_databases (take 100 (drop ?off ?bs))"]
      have "\<exists>n. getChildPages_loop ?C pageId
            (acc @ pages_and_databases (take 100 (drop ?off ?bs))) (Some (?off + 100))
         = Some (acc @ pages_and_databases (take 100 (drop ?off ?bs))
                 @ pages_and_databases (take n (drop (?off + 100) ?bs)))"
        by simp
      then obtain n where
        "getChildPages_loop ?C pageId
            (acc @ pages_and_databases (take 100 (drop ?off ?bs))) (Some (?off + 100))
         = Some (acc @ pages_and_databases (take 100 (drop ?off ?bs))
                 @ pages_and_databases (take n (drop (?off + 100) ?bs)))"
        by blast
      moreover have "take (100 + n) (drop ?off ?bs)
          = take 100 (drop ?off ?bs) @ take n (drop (?off + 100) ?bs)"
        by (metis take_add drop_drop add.commute)
      ultimately have "getChildPages_loop ?C pageId acc cur
         = Some (acc @ pages_and_databases (take (100 + n) (drop ?off ?bs)))"
        using step by (simp only: pages_and_databases_append)
      then show ?thesis by blast
    next
      case False
      then have "getChildPages_loop ?C pageId acc cur
          = Some (acc @ pages_and_databases (take 100 (drop ?off ?bs)))"
        using nf
        by (subst getChildPages_loop.simps)
           (simp add: serve_list_def list_slice_def push_results_eq Let_def)
      then show ?thesis by blast
    qed
  qed
qed

lemma loop_serve_all:
  assumes nf: "\<forall>off. \<not> fault pageId off"
  shows "getChildPages_loop \<lparr> pages_retrieve = r, blocks_children_list = serve_list kids fault \<rparr>
          pageId acc cur
        = Some (acc @ pages_and_databases
                  (drop (case cur of None \<Rightarrow> 0 | Some k \<Rightarrow> k) (kids pageId)))"
proof (induction "length (kids pageId) - (case cur of None \<Rightarrow> 0 | Some k \<Rightarrow> k)"
       arbitrary: cur acc rule: less_induct)
  case less
  let ?C = "\<lparr> pages_retrieve = r, blocks_children_list = serve_list kids fault \<rparr>"
  let ?off = "case cur of None \<Rightarrow> 0 | Some k \<Rightarrow> k"
  let ?bs = "kids pageId"
  show ?case
  proof (cases "?off + 100 < length ?bs")
    case True
    have step: "getChildPages_loop ?C pageId acc cur
        = getChildPages_loop ?C pageId
            (acc @ pages_and_databases (take 100 (drop ?off ?bs))) (Some (?off + 100))"
      using nf True
      by (subst getChildPages_loop.simps)
         (simp add: serve_list_def list_slice_def push_results_eq Let_def)
    have "length ?bs - (case Some (?off + 100) of None \<Rightarrow> 0 | Some k \<Rightarrow> k)
        < length ?bs - ?off"
      using True by simp
    from less[OF this, of "acc @ pages_and_databases (take 100 (drop ?off ?bs))"]
    have "getChildPages_loop ?C pageId
            (acc @ pages_and_databases (take 100 (drop ?off ?bs))) (Some (?off + 100))
         = Some ((acc @ pages_and_databases (take 100 (drop ?off ?bs)))
                 @ pages_and_databases (drop (?off + 100) ?bs))"
      by simp
    moreover have "take 100 (drop ?off ?bs) @ drop (?off + 100) ?bs = drop ?off ?bs"
      by (metis add.commute append_take_drop_id drop_drop)
    ultimately show ?thesis
      using step by (simp add: pages_and_databases_append[symmetric])
  next
    case False
    then have "getChildPages_loop ?C pageId acc cur
        = Some (acc @ pages_and_databases (take 100 (drop ?off ?bs)))"
      using nf
      by (subst getChildPages_loop.simps)
         (simp add: serve_list_def list_slice_def push_results_eq Let_def)
    moreover have "take 100 (drop ?off ?bs) = drop ?off ?bs"
      using False by simp
    ultimately show ?thesis by simp
  qed
qed

lemma loop_serve_fault:
  "\<forall>j<k. \<not> fault pageId ((case cur of None \<Rightarrow> 0 | Some c \<Rightarrow> c) + 100 * j) \<Longrightarrow>
   fault pageId ((case cur of None \<Rightarrow> 0 | Some c \<Rightarrow> c) + 100 * k) \<Longrightarrow>
   k = 0 \<or> (case cur of None \<Rightarrow> 0 | Some c \<Rightarrow> c) + 100 * k < length (kids pageId) \<Longrightarrow>
   getChildPages_loop \<lparr> pages_retrieve = r, blocks_children_list = serve_list kids fault \<rparr>
       pageId acc cur
     = Some (acc @ pages_and_databases
               (take (100 * k) (drop (case cur of None \<Rightarrow> 0 | Some c \<Rightarrow> c) (kids pageId))))"
proof (induction k arbitrary: cur acc)
  case 0
  then show ?case
    by (subst getChildPages_loop.simps)
       (simp add: serve_list_def Let_def pages_and_databases_def)
next
  case (Suc k)
  let ?C = "\<lparr> pages_retrieve = r, blocks_children_list = serve_list kids fault \<rparr>"
  let ?off = "case cur of None \<Rightarrow> 0 | Some c \<Rightarrow> c"
  let ?bs = "kids pageId"
  have nf: "\<not> fault pageId ?off"
    using Suc.prems(1)[rule_format, of 0] by simp
  have more: "?off + 100 < length ?bs"
    using Suc.prems(3) by simp
  have step: "getChildPages_loop ?C pageId acc cur
      = getChildPages_loop ?C pageId
          (acc @ pages_and_databases (take 100 (drop ?off ?bs))) (Some (?off + 100))"
    using nf more
    by (subst getChildPages_loop.simps)
       (simp add: serve_list_def list_slice_def push_results_eq Let_def)
  have a: "\<forall>j<k. \<not> fault pageId ((case Some (?off + 100) of None \<Rightarrow> 0 | Some c \<Rightarrow> c) + 100 * j)"
  proof (intro allI impI)
    fix j assume "j < k"
    then have "Suc j < Suc k" by simp
    from Suc.prems(1)[rule_format, OF this]
    have "\<not> fault pageId (?off + 100 * Suc j)" .
    then show "\<not> fault pageId ((case Some (?off + 100) of None \<Rightarrow> 0 | Some c \<Rightarrow> c) + 100 * j)"
      by (simp add: add.assoc)
  qed
  have b: "fault pageId ((case Some (?off + 100) of None \<Rightarrow> 0 | Some c \<Rightarrow> c) + 100 * k)"
    using Suc.prems(2) by (simp add: add.assoc)
  have c: "k = 0 \<or> (case Some (?off + 100) of None \<Rightarrow> 0 | Some c \<Rightarrow> c) + 100 * k < length ?bs"
    using Suc.prems(3) by (simp add: add.assoc)
  from Suc.IH[OF a b c, of "acc @ pages_and_databases (take 100 (drop ?off ?bs))"]
  have "getChildPages_loop ?C pageId
          (acc @ pages_and_databases (take 100 (drop ?off ?bs))) (Some (?off + 100))
      = Some (acc @ pages_and_databases (take 100 (drop ?off ?bs))
              @ pages_and_databases (take (100 * k) (drop (?off + 100) ?bs)))"
    by simp
  moreover have "take (100 * Suc k) (drop ?off ?bs)
      = take 100 (drop ?off ?bs) @ take (100 * k) (drop (?off + 100) ?bs)"
    by (metis take_add drop_drop add.commute mult_Suc_right)
  ultimately show ?case
    using step by (simp only: pages_and_databases_append)
qed

lemma serve_list_returns:
  "getChildPages \<lparr> pages_retrieve = r, blocks_children_list = serve_list kids fault \<rparr> pageId \<noteq> None"
  using loop_serve_prefix[of r kids fault pageId "[]" None]
  by (auto simp: getChildPages_def)

text \<open>
  C5, as the code has it. On a remote that holds the child blocks \<open>kids pageId\<close> and pages
  them, \<open>getChildPages\<close> always returns, with the \<open>child_page\<close> and \<open>child_database\<close> blocks
  of a leading part of \<open>kids pageId\<close>, in their order and with no block of another type.
  When no listing call for the node throws, the part is all of \<open>kids pageId\<close>, over all the
  pages of the listing. When the call for the page at offset \<open>100 * k\<close> is the first that
  throws, the part is the \<open>100 * k\<close> blocks of the pages before it.
\<close>

theorem getChildPages_lists_children:
  "((\<forall>off. \<not> fault pageId off) \<longrightarrow>
      getChildPages \<lparr> pages_retrieve = r, blocks_children_list = serve_list kids fault \<rparr> pageId
        = Some (pages_and_databases (kids pageId)))
   \<and> ((\<forall>j<k. \<not> fault pageId (100 * j)) \<and> fault pageId (100 * k)
        \<and> (k = 0 \<or> 100 * k < length (kids pageId)) \<longrightarrow>
      getChildPages \<lparr> pages_retrieve = r, blocks_children_list = serve_list kids fault \<rparr> pageId
        = Some (pages_and_databases (take (100 * k) (kids pageId))))
   \<and> (\<exists>n. getChildPages \<lparr> pages_retrieve = r, blocks_children_list = serve_list kids fault \<rparr>
              pageId
          = Some (pages_and_databases (take n (kids pageId))))"
  using loop_serve_prefix[of r kids fault pageId "[]" None]
    loop_serve_all[of fault pageId r kids "[]" None]
    loop_serve_fault[of k fault pageId None kids r "[]"]
  by (simp add: getChildPages_def)

theorem getChildPages_lists_children_witness:
  "(\<forall>off. \<not> (\<lambda>pageId off. False) ''big'' off)
   \<and> length (big_kids ''big'') = 101
   \<and> getChildPages steady_client ''big'' = Some (pages_and_databases (big_kids ''big''))
   \<and> \<not> (\<lambda>pageId off. off = (100::nat)) ''big'' (100 * 0)
   \<and> (\<lambda>pageId off. off = (100::nat)) ''big'' (100 * 1)
   \<and> 100 * 1 < length (big_kids ''big'')
   \<and> getChildPages flaky_client ''big''
       = Some (pages_and_databases (take (100 * 1) (big_kids ''big'')))"
proof -
  have "length (big_kids ''big'') = 101"
    by code_simp
  then show ?thesis
    using getChildPages_lists_children
      [of "\<lambda>pageId off. False" "''big''" "\<lambda>pageId. Inr (titled_page pageId)" big_kids]
      getChildPages_lists_children
      [of "\<lambda>pageId off. off = 100" "''big''" "\<lambda>pageId. Inr (titled_page pageId)" big_kids 1]
    by (simp add: steady_client_def flaky_client_def)
qed

text \<open>
  The claim as it is written fails when a listing call throws: of the 101 child pages of
  \<open>big\<close>, the lister returns the first 100 when the call for the second page fails.
\<close>

theorem getChildPages_truncated:
  "getChildPages flaky_client ''big'' = Some (pages_and_databases (take 100 (big_kids ''big'')))
   \<and> getChildPages flaky_client ''big'' \<noteq> Some (pages_and_databases (big_kids ''big''))"
  by code_simp


section \<open>Properties of the tree builder\<close>

lemma build_guard:
  "MAX_DEPTH < d \<or> pageId \<in> visited \<Longrightarrow>
     buildSitemapTree notion pageId d visited = Some (None, visited)"
  by (subst buildSitemapTree.simps) simp

lemma build_Some_cases:
  assumes "buildSitemapTree notion pageId d visited = Some (Some t, v')"
  obtains pd childItems cs where
    "d \<le> MAX_DEPTH" "pageId \<notin> visited"
    "getPageDetails notion pageId = Some pd"
    "getChildPages notion pageId = Some childItems"
    "buildChildren notion childItems d (insert pageId visited) [] = Some (cs, v')"
    "t = Node (pd_id pd) (pd_title pd) (pd_url pd) (pd_type pd) (pd_lastEdited pd) cs d"
  using assms
  by (subst (asm) buildSitemapTree.simps)
     (auto split: if_splits option.splits prod.splits)

lemma buildChildren_Cons_page:
  "child_type c = ''page'' \<Longrightarrow>
   buildChildren notion (c # rest) d visited cs =
     (case buildSitemapTree notion (child_id c) (d + 1) visited of
        None \<Rightarrow> None
      | Some (childTree, visited') \<Rightarrow>
          buildChildren notion rest d visited'
            (case childTree of None \<Rightarrow> cs | Some t \<Rightarrow> cs @ [t]))"
  by (subst buildChildren.simps) simp

lemma buildChildren_Cons_database:
  "child_type c \<noteq> ''page'' \<Longrightarrow> child_type c = ''database'' \<Longrightarrow>
   buildChildren notion (c # rest) d visited cs =
     buildChildren notion rest d visited (cs @ [database_leaf c d])"
  by (subst buildChildren.simps) simp

lemma buildChildren_Cons_other:
  "child_type c \<noteq> ''page'' \<Longrightarrow> child_type c \<noteq> ''database'' \<Longrightarrow>
   buildChildren notion (c # rest) d visited cs = buildChildren notion rest d visited cs"
  by (subst buildChildren.simps) simp

text \<open>Depths: the mutual computation induction over the builder and its loop.\<close>

lemma depth_invariant:
  "buildSitemapTree notion pageId d visited = Some (Some t, v') \<Longrightarrow>
     well_levelled d t \<and> (\<forall>n \<in> set (nodes t). within_cap n)"
  "buildChildren notion items d visited acc = Some (ts, v') \<Longrightarrow> d \<le> MAX_DEPTH \<Longrightarrow>
     (\<forall>c \<in> set acc. well_levelled (d + 1) c \<and> (\<forall>n \<in> set (nodes c). within_cap n)) \<Longrightarrow>
     (\<forall>c \<in> set ts. well_levelled (d + 1) c \<and> (\<forall>n \<in> set (nodes c). within_cap n))"
proof (induction notion pageId d visited and notion items d visited acc
       arbitrary: t v' and ts v' rule: buildSitemapTree_buildChildren.induct)
  case (1 notion pageId d visited)
  from "1.prems" obtain pd childItems cs where
    d: "d \<le> MAX_DEPTH" and nv: "pageId \<notin> visited"
    and pd: "getPageDetails notion pageId = Some pd"
    and ci: "getChildPages notion pageId = Some childItems"
    and bc: "buildChildren notion childItems d (insert pageId visited) [] = Some (cs, v')"
    and t: "t = Node (pd_id pd) (pd_title pd) (pd_url pd) (pd_type pd) (pd_lastEdited pd) cs d"
    by (rule build_Some_cases)
  have "\<not> (MAX_DEPTH < d \<or> pageId \<in> visited)" using d nv by simp
  from "1.IH"[OF this pd ci bc d] 
  have cs: "\<forall>c \<in> set cs. well_levelled (d + 1) c \<and> (\<forall>n \<in> set (nodes c). within_cap n)"
    by simp
  show ?case using cs d by (auto simp: t within_cap_def)
next
  case (2 notion d visited cs)
  then show ?case by simp
next
  case (3 notion c rest d visited cs)
  show ?case
  proof (cases "child_type c = ''page''")
    case True
    from "3.prems"(1) True obtain childTree v1 where
      b: "buildSitemapTree notion (child_id c) (d + 1) visited = Some (childTree, v1)"
      and r: "buildChildren notion rest d v1 (case childTree of None \<Rightarrow> cs | Some t \<Rightarrow> cs @ [t])
               = Some (ts, v')"
      by (subst (asm) buildChildren.simps) (auto split: option.splits)
    have acc: "\<forall>c \<in> set (case childTree of None \<Rightarrow> cs | Some t \<Rightarrow> cs @ [t]).
                 well_levelled (d + 1) c \<and> (\<forall>n \<in> set (nodes c). within_cap n)"
      using "3.prems"(3) "3.IH"(1)[OF True] b by (auto split: option.splits)
    show ?thesis
      using "3.IH"(2)[OF True b refl r "3.prems"(2) acc] .
  next
    case False
    note np = this
    show ?thesis
    proof (cases "child_type c = ''database''")
      case True
      from "3.prems"(1) np True have
        r: "buildChildren notion rest d visited (cs @ [database_leaf c d]) = Some (ts, v')"
        by (subst (asm) buildChildren.simps) simp
      have acc: "\<forall>c \<in> set (cs @ [database_leaf c d]).
                 well_levelled (d + 1) c \<and> (\<forall>n \<in> set (nodes c). within_cap n)"
        using "3.prems"(2,3) by (auto simp: database_leaf_def within_cap_def)
      show ?thesis using "3.IH"(3)[OF np True r "3.prems"(2) acc] .
    next
      case False
      from "3.prems"(1) np False have
        r: "buildChildren notion rest d visited cs = Some (ts, v')"
        by (subst (asm) buildChildren.simps) simp
      show ?thesis using "3.IH"(4)[OF np False r "3.prems"(2,3)] .
    qed
  qed
qed

lemma page_ids_Node:
  "page_ids (Node i t u ty le cs dp) =
     (if ty \<noteq> ''database'' then [i] else []) @ concat (map page_ids cs)"
  by (simp add: page_ids_def[abs_def] map_concat filter_concat comp_def)

lemma page_ids_database_leaf: "page_ids (database_leaf c d) = []"
  by (simp add: database_leaf_def page_ids_Node)

lemma visited_invariant:
  "buildSitemapTree notion pageId d visited = Some (r, v') \<Longrightarrow>
     visited \<subseteq> v' \<and>
     (\<forall>t. r = Some t \<longrightarrow> distinct (page_ids t) \<and> set (page_ids t) \<subseteq> v' - visited)"
  "buildChildren notion items d visited acc = Some (ts, v') \<Longrightarrow>
     visited \<subseteq> v' \<and>
     (\<exists>new. ts = acc @ new \<and> distinct (concat (map page_ids new))
        \<and> set (concat (map page_ids new)) \<subseteq> v' - visited)"
proof (induction notion pageId d visited and notion items d visited acc
       arbitrary: r v' and ts v' rule: buildSitemapTree_buildChildren.induct)
  case (1 notion pageId d visited)
  show ?case
  proof (cases r)
    case None
    with "1.prems" show ?thesis
      by (subst (asm) buildSitemapTree.simps)
         (auto split: if_splits option.splits prod.splits)
  next
    case (Some t)
    with "1.prems" obtain pd childItems cs where
      d: "d \<le> MAX_DEPTH" and nv: "pageId \<notin> visited"
      and pd: "getPageDetails notion pageId = Some pd"
      and ci: "getChildPages notion pageId = Some childItems"
      and bc: "buildChildren notion childItems d (insert pageId visited) [] = Some (cs, v')"
      and t: "t = Node (pd_id pd) (pd_title pd) (pd_url pd) (pd_type pd) (pd_lastEdited pd) cs d"
      by (auto elim: build_Some_cases)
    have g: "\<not> (MAX_DEPTH < d \<or> pageId \<in> visited)" using d nv by simp
    from "1.IH"[OF g pd ci bc]
    have sub: "insert pageId visited \<subseteq> v'"
      and dis: "distinct (concat (map page_ids cs))"
      and new: "set (concat (map page_ids cs)) \<subseteq> v' - insert pageId visited"
      by auto
    have id: "pd_id pd = pageId"
      using pd by (auto simp: getPageDetails_def split: sum.splits)
    show ?thesis
      using sub dis new nv by (auto simp: Some t page_ids_Node id)
  qed
next
  case (2 notion d visited cs)
  then show ?case by simp
next
  case (3 notion c rest d visited cs)
  show ?case
  proof (cases "child_type c = ''page''")
    case True
    from "3.prems"(1) obtain childTree v1 where
      b: "buildSitemapTree notion (child_id c) (d + 1) visited = Some (childTree, v1)"
      and r: "buildChildren notion rest d v1 (case childTree of None \<Rightarrow> cs | Some t \<Rightarrow> cs @ [t])
               = Some (ts, v')"
      by (auto simp: buildChildren_Cons_page[OF True] split: option.splits)
    from "3.IH"(1)[OF True b]
    have s1: "visited \<subseteq> v1"
      and t1: "\<forall>t. childTree = Some t \<longrightarrow> distinct (page_ids t) \<and> set (page_ids t) \<subseteq> v1 - visited"
      by auto
    from "3.IH"(2)[OF True b refl r] obtain new where
      s2: "v1 \<subseteq> v'"
      and ts: "ts = (case childTree of None \<Rightarrow> cs | Some t \<Rightarrow> cs @ [t]) @ new"
      and d2: "distinct (concat (map page_ids new))"
      and n2: "set (concat (map page_ids new)) \<subseteq> v' - v1"
      by auto
    let ?new = "(case childTree of None \<Rightarrow> [] | Some t \<Rightarrow> [t]) @ new"
    have "ts = cs @ ?new" using ts by (simp split: option.splits)
    moreover have "distinct (concat (map page_ids ?new))"
      using t1 d2 n2 by (cases childTree) auto
    moreover have "set (concat (map page_ids ?new)) \<subseteq> v' - visited"
      using t1 n2 s1 s2 by (cases childTree) auto
    ultimately show ?thesis using s1 s2 by blast
  next
    case False
    note np = this
    show ?thesis
    proof (cases "child_type c = ''database''")
      case True
      from "3.prems"(1) have
        r: "buildChildren notion rest d visited (cs @ [database_leaf c d]) = Some (ts, v')"
        by (simp add: buildChildren_Cons_database[OF np True])
      from "3.IH"(3)[OF np True r] obtain new where
        s2: "visited \<subseteq> v'"
        and ts: "ts = (cs @ [database_leaf c d]) @ new"
        and d2: "distinct (concat (map page_ids new))"
        and n2: "set (concat (map page_ids new)) \<subseteq> v' - visited"
        by auto
      have "ts = cs @ (database_leaf c d # new)" using ts by simp
      moreover have "concat (map page_ids (database_leaf c d # new)) = concat (map page_ids new)"
        by (simp add: page_ids_database_leaf)
      ultimately show ?thesis using s2 d2 n2 by metis
    next
      case False
      from "3.prems"(1) have
        r: "buildChildren notion rest d visited cs = Some (ts, v')"
        by (simp add: buildChildren_Cons_other[OF np False])
      show ?thesis using "3.IH"(4)[OF np False r] .
    qed
  qed
qed

lemma build_returns:
  "\<forall>p. getChildPages notion p \<noteq> None \<Longrightarrow>
     buildSitemapTree notion pageId d visited \<noteq> None"
  "\<forall>p. getChildPages notion p \<noteq> None \<Longrightarrow>
     buildChildren notion items d visited acc \<noteq> None"
proof (induction notion pageId d visited and notion items d visited acc
       rule: buildSitemapTree_buildChildren.induct)
  case (1 notion pageId d visited)
  show ?case
  proof (cases "MAX_DEPTH < d \<or> pageId \<in> visited")
    case True
    then show ?thesis by (simp add: build_guard)
  next
    case False
    note g = this
    show ?thesis
    proof (cases "getPageDetails notion pageId")
      case None
      with g show ?thesis by (subst buildSitemapTree.simps) simp
    next
      case (Some pd)
      from "1.prems" obtain childItems where
        ci: "getChildPages notion pageId = Some childItems" by auto
      from "1.IH"[OF g Some ci "1.prems"] obtain cs v' where
        "buildChildren notion childItems d (insert pageId visited) [] = Some (cs, v')"
        by auto
      with g Some ci show ?thesis by (subst buildSitemapTree.simps) simp
    qed
  qed
next
  case (2 notion d visited cs)
  show ?case by simp
next
  case (3 notion c rest d visited cs)
  show ?case
  proof (cases "child_type c = ''page''")
    case True
    from "3.IH"(1)[OF True "3.prems"] obtain childTree v1 where
      b: "buildSitemapTree notion (child_id c) (d + 1) visited = Some (childTree, v1)"
      by auto
    from "3.IH"(2)[OF True b refl "3.prems"] b
    show ?thesis by (simp add: buildChildren_Cons_page[OF True])
  next
    case False
    note np = this
    show ?thesis
    proof (cases "child_type c = ''database''")
      case True
      from "3.IH"(3)[OF np True "3.prems"]
      show ?thesis by (simp add: buildChildren_Cons_database[OF np True])
    next
      case False
      from "3.IH"(4)[OF np False "3.prems"]
      show ?thesis by (simp add: buildChildren_Cons_other[OF np False])
    qed
  qed
qed


text \<open>
  C3, as the code has it. \<open>MAX_DEPTH\<close> is \<open>4\<close>. In the tree built from a start page, the
  \<open>depth\<close> field of every node is its level below the root; every node is at depth
  \<open>MAX_DEPTH + 1\<close> at most, and a node at depth \<open>MAX_DEPTH + 1\<close> is a \<open>database\<close> leaf, so
  every other node is at depth \<open>MAX_DEPTH\<close> at most. A call entered with a depth greater
  than \<open>MAX_DEPTH\<close> returns \<open>null\<close> and leaves the visited set as it was.
\<close>

theorem buildSitemapTree_depth_cap:
  "MAX_DEPTH = 4
   \<and> (\<forall>t. sitemapTree notion rootId = Some (Some t) \<longrightarrow>
         well_levelled 0 t
         \<and> (\<forall>n \<in> set (nodes t).
               depth n \<le> MAX_DEPTH + 1
               \<and> (depth n = MAX_DEPTH + 1 \<longrightarrow> node_type n = ''database'' \<and> children n = [])))
   \<and> (\<forall>pageId d visited. MAX_DEPTH < d \<longrightarrow>
         buildSitemapTree notion pageId d visited = Some (None, visited))"
proof (intro conjI allI impI)
  show "MAX_DEPTH = 4" by (simp add: MAX_DEPTH_def)
next
  fix t
  assume "sitemapTree notion rootId = Some (Some t)"
  then obtain v' where "buildSitemapTree notion rootId 0 {} = Some (Some t, v')"
    by (auto simp: sitemapTree_def)
  from depth_invariant(1)[OF this]
  show "well_levelled 0 t"
    and "\<forall>n \<in> set (nodes t).
           depth n \<le> MAX_DEPTH + 1
           \<and> (depth n = MAX_DEPTH + 1 \<longrightarrow> node_type n = ''database'' \<and> children n = [])"
    by (simp_all add: within_cap_def)
next
  fix pageId :: string and d :: nat and visited :: "string set"
  assume "MAX_DEPTH < d"
  then show "buildSitemapTree notion pageId d visited = Some (None, visited)"
    by (simp add: build_guard)
qed

theorem buildSitemapTree_depth_cap_witness:
  "sitemapTree demo_client ''root'' = Some (Some demo_tree)
   \<and> well_levelled 0 demo_tree
   \<and> map depth (nodes demo_tree) = [0, 1, 2, 1]
   \<and> list_all within_cap (nodes demo_tree)
   \<and> MAX_DEPTH < 5
   \<and> buildSitemapTree demo_client ''root'' 5 {''seen''} = Some (None, {''seen''})"
proof -
  have e: "sitemapTree demo_client ''root'' = Some (Some demo_tree)"
    by code_simp
  have m: "MAX_DEPTH < 5"
    by (simp add: MAX_DEPTH_def)
  have d: "map depth (nodes demo_tree) = [0, 1, 2, 1]"
    by (simp add: demo_tree_def)
  from buildSitemapTree_depth_cap[of demo_client "''root''"] e m d
  show ?thesis
    by (simp add: list_all_iff within_cap_def)
qed

text \<open>
  The claim as it is written fails below a page at depth \<open>MAX_DEPTH\<close>: the database \<open>db\<close>
  under the page \<open>p4\<close> of the chain is a node of the tree at depth \<open>5\<close>.
\<close>

theorem buildSitemapTree_database_below_cap:
  "map_option (map_option (map (\<lambda>n. (node_id n, node_type n, depth n)) \<circ> nodes))
     (sitemapTree chain_client ''p0'')
   = Some (Some [(''p0'', ''page'', 0), (''p1'', ''page'', 1), (''p2'', ''page'', 2),
                 (''p3'', ''page'', 3), (''p4'', ''page'', 4), (''db'', ''database'', 5)])
   \<and> \<not> 5 \<le> MAX_DEPTH"
proof -
  have "map_option (map_option (map (\<lambda>n. (node_id n, node_type n, depth n)) \<circ> nodes))
     (sitemapTree chain_client ''p0'')
   = Some (Some [(''p0'', ''page'', 0), (''p1'', ''page'', 1), (''p2'', ''page'', 2),
                 (''p3'', ''page'', 3), (''p4'', ''page'', 4), (''db'', ''database'', 5)])"
    by code_simp
  then show ?thesis by (simp add: MAX_DEPTH_def)
qed

text \<open>
  C4. A call for a page id that is in the visited set returns \<open>null\<close> and changes nothing.
  So in a tree the builder returns, the ids of the page nodes are pairwise different, none
  of them was visited before the call, and all of them are visited after it. The builder
  returns whenever every child listing does; on a remote that holds finite child lists it
  always returns, whatever cycles the lists have and whichever calls fail.
\<close>

theorem buildSitemapTree_cycle_guard:
  "(pageId \<in> visited \<longrightarrow> buildSitemapTree notion pageId d visited = Some (None, visited))
   \<and> (\<forall>t v'. buildSitemapTree notion pageId d visited = Some (Some t, v') \<longrightarrow>
         distinct (page_ids t) \<and> set (page_ids t) \<inter> visited = {} \<and> set (page_ids t) \<subseteq> v')
   \<and> ((\<forall>p. getChildPages notion p \<noteq> None) \<longrightarrow>
         buildSitemapTree notion pageId d visited \<noteq> None)
   \<and> buildSitemapTree \<lparr> pages_retrieve = r, blocks_children_list = serve_list kids fault \<rparr>
         pageId d visited \<noteq> None"
proof (intro conjI allI impI)
  assume "pageId \<in> visited"
  then show "buildSitemapTree notion pageId d visited = Some (None, visited)"
    by (simp add: build_guard)
next
  fix t v'
  assume b: "buildSitemapTree notion pageId d visited = Some (Some t, v')"
  from visited_invariant(1)[OF b]
  show "distinct (page_ids t)" and "set (page_ids t) \<inter> visited = {}"
    and "set (page_ids t) \<subseteq> v'"
    by auto
next
  assume "\<forall>p. getChildPages notion p \<noteq> None"
  then show "buildSitemapTree notion pageId d visited \<noteq> None"
    by (rule build_returns(1))
next
  show "buildSitemapTree \<lparr> pages_retrieve = r, blocks_children_list = serve_list kids fault \<rparr>
          pageId d visited \<noteq> None"
    by (rule build_returns(1)) (simp add: serve_list_returns)
qed

theorem buildSitemapTree_cycle_guard_witness:
  "''root'' \<in> {''root''}
   \<and> buildSitemapTree demo_client ''root'' 2 {''root''} = Some (None, {''root''})
   \<and> (\<forall>p. getChildPages demo_client p \<noteq> None)
   \<and> buildSitemapTree demo_client ''root'' 0 {} = Some (Some demo_tree, {''root'', ''a-1'', ''a-2''})
   \<and> page_ids demo_tree = [''root'', ''a-1'']
   \<and> distinct (page_ids demo_tree)"
proof -
  have f: "\<forall>p. getChildPages demo_client p \<noteq> None"
    by (simp add: demo_client_def serve_list_returns)
  have e: "buildSitemapTree demo_client ''root'' 0 {} = Some (Some demo_tree, {''root'', ''a-1'', ''a-2''})"
    by code_simp
  have p: "page_ids demo_tree = [''root'', ''a-1'']"
    by (simp add: demo_tree_def page_ids_def)
  from buildSitemapTree_cycle_guard[of "''root''" "{''root''}" demo_client 2]
    buildSitemapTree_cycle_guard[of "''root''" "{}" demo_client 0] f e p
  show ?thesis by simp
qed



section \<open>Properties of the publisher\<close>

lemma chunks_Nil [simp]: "chunks n [] = []"
  by (simp add: chunks.simps)

lemma concat_chunks: "0 < n \<Longrightarrow> concat (chunks n xs) = xs"
proof (induction "length xs" arbitrary: xs rule: less_induct)
  case less
  show ?case
  proof (cases "xs = []")
    case True
    then show ?thesis by simp
  next
    case False
    with less.prems have "length (drop n xs) < length xs" by simp
    from less.hyps[OF this less.prems] False less.prems
    show ?thesis by (subst chunks.simps) simp
  qed
qed

lemma chunks_lengths: "b \<in> set (chunks n xs) \<Longrightarrow> b \<noteq> [] \<and> length b \<le> n"
proof (induction "length xs" arbitrary: xs rule: less_induct)
  case less
  show ?case
  proof (cases "xs = [] \<or> n = 0")
    case True
    with less.prems show ?thesis by (simp add: chunks.simps)
  next
    case False
    then have l: "length (drop n xs) < length xs" by simp
    from less.prems False have "b = take n xs \<or> b \<in> set (chunks n (drop n xs))"
      by (subst (asm) chunks.simps) simp
    then show ?thesis using less.hyps[OF l] False by auto
  qed
qed

lemma chunks_full: "b \<in> set (butlast (chunks n xs)) \<Longrightarrow> length b = n"
proof (induction "length xs" arbitrary: xs rule: less_induct)
  case less
  show ?case
  proof (cases "xs = [] \<or> n = 0")
    case True
    with less.prems show ?thesis by (simp add: chunks.simps)
  next
    case False
    then have l: "length (drop n xs) < length xs" by simp
    have c: "chunks n xs = take n xs # chunks n (drop n xs)"
      using False by (subst chunks.simps) simp
    show ?thesis
    proof (cases "chunks n (drop n xs) = []")
      case True
      with less.prems c show ?thesis by simp
    next
      case False
      then have "drop n xs \<noteq> []" by auto
      then have "n < length xs" by simp
      with less.prems c False less.hyps[OF l] show ?thesis by auto
    qed
  qed
qed

lemma append_batches_log:
  "append_batches svc allBlocks i st = (out, st') \<Longrightarrow>
     existing st' = existing st \<and>
     (\<exists>k. log st' = log st @ map Appended (take k (chunks 100 (drop i allBlocks)))) \<and>
     (out = Returned \<longrightarrow> log st' = log st @ map Appended (chunks 100 (drop i allBlocks)))"
proof (induction svc allBlocks i st arbitrary: out st' rule: append_batches.induct)
  case (1 svc allBlocks i st)
  show ?case
  proof (cases "i < length allBlocks")
    case False
    with "1.prems" have "out = Returned" "st' = st"
      by (subst (asm) append_batches.simps, simp)+
    moreover have "chunks 100 (drop i allBlocks) = []" using False by simp
    ultimately show ?thesis by simp
  next
    case True
    then have c: "chunks 100 (drop i allBlocks)
        = take 100 (drop i allBlocks) # chunks 100 (drop (i + 100) allBlocks)"
      by (subst chunks.simps) (simp add: add.commute)
    show ?thesis
    proof (cases "blocks_children_append svc st (take 100 (drop i allBlocks))")
      case (Inl err)
      with "1.prems" True have "out = Threw err" "st' = st"
        by (subst (asm) append_batches.simps, simp)+
      then have "log st' = log st @ map Appended (take 0 (chunks 100 (drop i allBlocks)))"
        by simp
      then show ?thesis using \<open>out = Threw err\<close> \<open>st' = st\<close> by blast
    next
      case (Inr st1)
      then have st1: "st1 = st\<lparr> log := log st @ [Appended (take 100 (drop i allBlocks))] \<rparr>"
        by (auto simp: blocks_children_append_def split: option.splits)
      from "1.prems" True Inr have
        r: "append_batches svc allBlocks (i + 100) st1 = (out, st')"
        by (subst (asm) append_batches.simps) simp
      from "1.IH"[OF True Inr r] obtain k where
        e: "existing st' = existing st1"
        and p: "log st' = log st1 @ map Appended (take k (chunks 100 (drop (i + 100) allBlocks)))"
        and f: "out = Returned \<longrightarrow>
                 log st' = log st1 @ map Appended (chunks 100 (drop (i + 100) allBlocks))"
        by blast
      have "log st' = log st @ map Appended (take (Suc k) (chunks 100 (drop i allBlocks)))"
        using p by (simp add: c st1)
      moreover have "out = Returned \<longrightarrow>
          log st' = log st @ map Appended (chunks 100 (drop i allBlocks))"
        using f by (simp add: c st1)
      ultimately show ?thesis using e by (auto simp: st1)
    qed
  qed
qed

lemma delete_existing_eq:
  "delete_existing svc bs st =
     st\<lparr> existing :=
           filter (\<lambda>b. block_id b \<in> block_id ` set bs \<longrightarrow> delete_throws svc (block_id b) \<noteq> None)
             (existing st),
         log := log st @ map Deleted (filter (\<lambda>i. delete_throws svc i = None) (map block_id bs)) \<rparr>"
proof (induction bs arbitrary: st)
  case Nil
  then show ?case by simp
next
  case (Cons b bs)
  show ?case
  proof (cases "delete_throws svc (block_id b)")
    case None
    have "filter (\<lambda>x. block_id x \<in> block_id ` set bs \<longrightarrow> delete_throws svc (block_id x) \<noteq> None)
            (filter (\<lambda>x. block_id x \<noteq> block_id b) (existing st))
        = filter (\<lambda>x. block_id x \<in> block_id ` set (b # bs) \<longrightarrow> delete_throws svc (block_id x) \<noteq> None)
            (existing st)"
      unfolding filter_filter using None by (intro filter_cong) auto
    with None show ?thesis
      by (simp add: blocks_delete_def Cons.IH)
  next
    case (Some err)
    have "filter (\<lambda>x. block_id x \<in> block_id ` set bs \<longrightarrow> delete_throws svc (block_id x) \<noteq> None)
            (existing st)
        = filter (\<lambda>x. block_id x \<in> block_id ` set (b # bs) \<longrightarrow> delete_throws svc (block_id x) \<noteq> None)
            (existing st)"
      using Some by (intro filter_cong) auto
    with Some show ?thesis
      by (simp add: blocks_delete_def Cons.IH)
  qed
qed

lemma appended_append: "appended (xs @ ys) = appended xs @ appended ys"
  by (induction xs rule: appended.induct) simp_all

lemma appended_Deleted: "appended (map Deleted ds) = []"
  by (induction ds) simp_all

lemma appended_Appended: "appended (map Appended bs) = bs"
  by (induction bs) simp_all

lemma butlast_take_subset: "set (butlast (take k xs)) \<subseteq> set (butlast xs)"
proof (cases "k < length xs")
  case True
  then have "butlast (take k xs) = take (k - 1) (butlast xs)"
    by (simp add: butlast_take take_butlast)
  then show ?thesis by (simp add: set_take_subset)
next
  case False
  then show ?thesis by simp
qed

text \<open>What a run of the publisher does to the target page, whichever calls throw.\<close>

lemma updateSitemapPage_run:
  assumes "updateSitemapPage svc now blocks st = (out, st')"
  shows "list_throws svc \<noteq> None \<longrightarrow> st' = st \<and> out \<noteq> Returned"
    and "list_throws svc = None \<longrightarrow>
           existing st' =
             filter (\<lambda>b. block_id b \<in> block_id ` set (take default_page_size (existing st))
                          \<longrightarrow> delete_throws svc (block_id b) \<noteq> None) (existing st)
           \<and> (\<exists>k. log st' =
                  log st
                  @ map Deleted (filter (\<lambda>i. delete_throws svc i = None)
                                   (map block_id (take default_page_size (existing st))))
                  @ map Appended (take k (chunks 100 (metadataBlocks now @ blocks))))"
    and "out = Returned \<longrightarrow>
           log st' =
             log st
             @ map Deleted (filter (\<lambda>i. delete_throws svc i = None)
                              (map block_id (take default_page_size (existing st))))
             @ map Appended (chunks 100 (metadataBlocks now @ blocks))"
proof -
  show "list_throws svc \<noteq> None \<longrightarrow> st' = st \<and> out \<noteq> Returned"
    using assms by (auto simp: updateSitemapPage_def target_list_def split: option.splits)
  let ?st1 = "delete_existing svc (take default_page_size (existing st)) st"
  have run: "list_throws svc = None \<Longrightarrow>
      append_batches svc (metadataBlocks now @ blocks) 0 ?st1 = (out, st')"
    using assms by (simp add: updateSitemapPage_def target_list_def list_slice_def)
  show "list_throws svc = None \<longrightarrow>
           existing st' =
             filter (\<lambda>b. block_id b \<in> block_id ` set (take default_page_size (existing st))
                          \<longrightarrow> delete_throws svc (block_id b) \<noteq> None) (existing st)
           \<and> (\<exists>k. log st' =
                  log st
                  @ map Deleted (filter (\<lambda>i. delete_throws svc i = None)
                                   (map block_id (take default_page_size (existing st))))
                  @ map Appended (take k (chunks 100 (metadataBlocks now @ blocks))))"
    using append_batches_log[OF run] by (auto simp: delete_existing_eq)
  show "out = Returned \<longrightarrow>
           log st' =
             log st
             @ map Deleted (filter (\<lambda>i. delete_throws svc i = None)
                              (map block_id (take default_page_size (existing st))))
             @ map Appended (chunks 100 (metadataBlocks now @ blocks))"
  proof
    assume r: "out = Returned"
    then have "list_throws svc = None"
      using assms by (auto simp: updateSitemapPage_def target_list_def split: option.splits)
    from append_batches_log[OF run[OF this]] r show "log st' =
             log st
             @ map Deleted (filter (\<lambda>i. delete_throws svc i = None)
                              (map block_id (take default_page_size (existing st))))
             @ map Appended (chunks 100 (metadataBlocks now @ blocks))"
      by (simp add: delete_existing_eq)
  qed
qed

text \<open>The batches a run appends: a leading part of the chunks of 100, all of them if it returns.\<close>

lemma updateSitemapPage_appended:
  assumes "updateSitemapPage svc now blocks st = (out, st')"
  shows "\<exists>k. appended (log st') =
              appended (log st) @ take k (chunks 100 (metadataBlocks now @ blocks))
            \<and> (out = Returned \<longrightarrow> length (chunks 100 (metadataBlocks now @ blocks)) \<le> k)"
proof (cases "list_throws svc")
  case (Some err)
  with updateSitemapPage_run(1)[OF assms]
  have "appended (log st') =
          appended (log st) @ take 0 (chunks 100 (metadataBlocks now @ blocks))"
    and "out \<noteq> Returned"
    by simp_all
  then show ?thesis by blast
next
  case None
  show ?thesis
  proof (cases "out = Returned")
    case True
    with updateSitemapPage_run(3)[OF assms]
    have "appended (log st') =
            appended (log st)
            @ take (length (chunks 100 (metadataBlocks now @ blocks)))
                (chunks 100 (metadataBlocks now @ blocks))"
      by (simp add: appended_append appended_Deleted appended_Appended)
    then show ?thesis by blast
  next
    case False
    from updateSitemapPage_run(2)[OF assms] None obtain k where
      "appended (log st') =
         appended (log st) @ take k (chunks 100 (metadataBlocks now @ blocks))"
      by (auto simp: appended_append appended_Deleted appended_Appended)
    with False show ?thesis by blast
  qed
qed

lemma updateSitemapPage_written:
  assumes "updateSitemapPage svc now blocks st = (out, st')"
  shows "\<exists>bs rest.
           appended (log st') = appended (log st) @ bs
           \<and> concat bs @ rest = metadataBlocks now @ blocks
           \<and> (\<forall>b \<in> set bs. b \<noteq> [] \<and> length b \<le> 100)
           \<and> (\<forall>b \<in> set (butlast bs). length b = 100)
           \<and> (out = Returned \<longrightarrow> rest = [])"
proof -
  let ?cs = "chunks 100 (metadataBlocks now @ blocks)"
  from updateSitemapPage_appended[OF assms] obtain k where
    a: "appended (log st') = appended (log st) @ take k ?cs"
    and r: "out = Returned \<longrightarrow> length ?cs \<le> k"
    by blast
  have "concat (take k ?cs) @ concat (drop k ?cs) = metadataBlocks now @ blocks"
    by (metis append_take_drop_id concat_append concat_chunks zero_less_numeral)
  moreover have "\<forall>b \<in> set (take k ?cs). b \<noteq> [] \<and> length b \<le> 100"
    using chunks_lengths[of _ 100 "metadataBlocks now @ blocks"] set_take_subset[of k ?cs]
    by blast
  moreover have "\<forall>b \<in> set (butlast (take k ?cs)). length b = 100"
    using chunks_full[of _ 100 "metadataBlocks now @ blocks"] butlast_take_subset[of k ?cs]
    by blast
  moreover have "out = Returned \<longrightarrow> concat (drop k ?cs) = []"
    using r by simp
  ultimately show ?thesis using a by blast
qed

text \<open>
  C1, as the code has it. When the listing of the target page does not throw and the page
  has no more blocks than one listing page holds, the publisher calls the deletion of every
  block of the page before it appends anything: the log of the run is the deletions that
  returned, then the appends. A block whose deletion returned is gone; a block whose
  deletion threw stays on the page, and the run goes on to append all the same. So the
  previous content is wiped exactly when no deletion throws.
\<close>

theorem updateSitemapPage_clears_listed:
  assumes "list_throws svc = None"
    and "length (existing st) \<le> default_page_size"
    and "updateSitemapPage svc now blocks st = (out, st')"
  shows "existing st' = filter (\<lambda>b. delete_throws svc (block_id b) \<noteq> None) (existing st)
    \<and> (\<exists>bs. log st' =
          log st
          @ map Deleted (filter (\<lambda>i. delete_throws svc i = None) (map block_id (existing st)))
          @ map Appended bs
          \<and> (out = Returned \<longrightarrow> concat bs = metadataBlocks now @ blocks))
    \<and> ((\<forall>b \<in> set (existing st). delete_throws svc (block_id b) = None) \<longrightarrow> existing st' = [])"
proof -
  have t: "take default_page_size (existing st) = existing st"
    using assms(2) by simp
  have f: "filter (\<lambda>b. block_id b \<in> block_id ` set (existing st)
                        \<longrightarrow> delete_throws svc (block_id b) \<noteq> None) (existing st)
      = filter (\<lambda>b. delete_throws svc (block_id b) \<noteq> None) (existing st)"
    by (intro filter_cong) auto
  from updateSitemapPage_run(2)[OF assms(3)] assms(1)
  have e: "existing st' = filter (\<lambda>b. delete_throws svc (block_id b) \<noteq> None) (existing st)"
    and l0: "\<exists>bs. log st' =
          log st
          @ map Deleted (filter (\<lambda>i. delete_throws svc i = None) (map block_id (existing st)))
          @ map Appended bs"
    unfolding t f by blast+
  have l: "\<exists>bs. log st' =
          log st
          @ map Deleted (filter (\<lambda>i. delete_throws svc i = None) (map block_id (existing st)))
          @ map Appended bs
          \<and> (out = Returned \<longrightarrow> concat bs = metadataBlocks now @ blocks)"
  proof (cases "out = Returned")
    case True
    with updateSitemapPage_run(3)[OF assms(3)]
    have "log st' =
          log st
          @ map Deleted (filter (\<lambda>i. delete_throws svc i = None) (map block_id (existing st)))
          @ map Appended (chunks 100 (metadataBlocks now @ blocks))"
      unfolding t by simp
    moreover have "concat (chunks 100 (metadataBlocks now @ blocks)) = metadataBlocks now @ blocks"
      by (simp add: concat_chunks)
    ultimately show ?thesis by blast
  next
    case False
    with l0 show ?thesis by blast
  qed
  have "(\<forall>b \<in> set (existing st). delete_throws svc (block_id b) = None) \<longrightarrow> existing st' = []"
    unfolding e by (auto simp: filter_empty_conv)
  with e l show ?thesis by blast
qed

theorem updateSitemapPage_clears_listed_witness:
  "list_throws quiet_service = None
   \<and> length (existing old_page) \<le> default_page_size
   \<and> updateSitemapPage quiet_service ''now'' [] old_page =
       (Returned, \<lparr> existing = [],
                    log = [Deleted ''old-1'', Deleted ''old-2'', Appended (metadataBlocks ''now'')] \<rparr>)
   \<and> filter (\<lambda>b. delete_throws quiet_service (block_id b) \<noteq> None) (existing old_page) = []"
proof -
  have l: "list_throws quiet_service = None"
    by (simp add: quiet_service_def)
  have n: "length (existing old_page) \<le> default_page_size"
    by (simp add: old_page_def default_page_size_def)
  have e: "updateSitemapPage quiet_service ''now'' [] old_page =
       (Returned, \<lparr> existing = [],
                    log = [Deleted ''old-1'', Deleted ''old-2'', Appended (metadataBlocks ''now'')] \<rparr>)"
    by code_simp
  from updateSitemapPage_clears_listed[OF l n e] l n e
  show ?thesis by simp
qed

text \<open>
  The claim as it is written fails when a deletion throws: the run returns, the block
  \<open>old-2\<close> of the previous content is still on the page, and the new content is appended
  after it.
\<close>

theorem updateSitemapPage_keeps_undeletable:
  "updateSitemapPage stubborn_service ''now'' [] old_page =
     (Returned,
      \<lparr> existing = [\<lparr> block_id = ''old-2'', payload = Other_block ''synced_block'' \<rparr>],
        log = [Deleted ''old-1'', Appended (metadataBlocks ''now'')] \<rparr>)"
  by code_simp

text \<open>
  The publisher lists the target page once and does not follow \<open>has_more\<close>: of a page
  with 101 blocks, the last one is not deleted, though no call throws.
\<close>

lemma updateSitemapPage_first_page_only:
  "updateSitemapPage quiet_service ''now'' [] crowded_page =
     (Returned,
      \<lparr> existing = drop 100 (big_kids ''big''),
        log = map (Deleted \<circ> block_id) (take 100 (big_kids ''big''))
              @ [Appended (metadataBlocks ''now'')] \<rparr>)
   \<and> length (drop 100 (big_kids ''big'')) = 1"
  by code_simp

text \<open>
  C7. The batches a run appends are consecutive pieces of the full block sequence (the two
  metadata blocks, then the rendered blocks), in its order: each batch has at least one and
  at most 100 blocks, every batch but the last has exactly 100, and the batches put together
  are a leading part of the sequence. When the run returns, they are the whole sequence:
  every block is appended once, in the original order.
\<close>

theorem updateSitemapPage_batches:
  assumes "updateSitemapPage svc now blocks st = (out, st')"
  shows "\<exists>bs rest.
           appended (log st') = appended (log st) @ bs
           \<and> concat bs @ rest = metadataBlocks now @ blocks
           \<and> (\<forall>b \<in> set bs. b \<noteq> [] \<and> length b \<le> 100)
           \<and> (\<forall>b \<in> set (butlast bs). length b = 100)
           \<and> (out = Returned \<longrightarrow> rest = [])"
  using assms by (rule updateSitemapPage_written)

theorem updateSitemapPage_batches_witness:
  "updateSitemapPage quiet_service ''now'' (replicate 250 Divider) old_page =
     (Returned,
      \<lparr> existing = [],
        log = [Deleted ''old-1'', Deleted ''old-2'',
               Appended (metadataBlocks ''now'' @ replicate 98 Divider),
               Appended (replicate 100 Divider),
               Appended (replicate 52 Divider)] \<rparr>)
   \<and> map length [metadataBlocks ''now'' @ replicate 98 Divider, replicate 100 Divider,
                  replicate 52 Divider] = [100, 100, 52]
   \<and> concat [metadataBlocks ''now'' @ replicate 98 Divider, replicate 100 Divider,
              replicate 52 Divider] = metadataBlocks ''now'' @ replicate 250 Divider"
proof -
  have e: "updateSitemapPage quiet_service ''now'' (replicate 250 Divider) old_page =
     (Returned,
      \<lparr> existing = [],
        log = [Deleted ''old-1'', Deleted ''old-2'',
               Appended (metadataBlocks ''now'' @ replicate 98 Divider),
               Appended (replicate 100 Divider),
               Appended (replicate 52 Divider)] \<rparr>)"
    by code_simp
  from updateSitemapPage_batches[OF e]
  have c: "concat [metadataBlocks ''now'' @ replicate 98 Divider, replicate 100 Divider,
              replicate 52 Divider] = metadataBlocks ''now'' @ replicate 250 Divider"
    by (auto simp: old_page_def)
  have "map length [metadataBlocks ''now'' @ replicate 98 Divider, replicate 100 Divider,
                  replicate 52 Divider] = [100, 100, 52]"
    by (simp add: metadataBlocks_def)
  with e c show ?thesis by simp
qed

text \<open>
  C9. The content a run writes starts with the two metadata blocks, the callout with the
  time of the run and the divider, and goes on with the rendered blocks: what is appended is
  a leading part of that sequence, and the whole of it when the run returns.
\<close>

theorem updateSitemapPage_metadata_first:
  assumes "updateSitemapPage svc now blocks st = (out, st')"
  shows "\<exists>bs rest.
           appended (log st') = appended (log st) @ bs
           \<and> concat bs @ rest =
               Callout [\<lparr> content = ''Auto-generated sitemap '' @ emoji_bullet
                                      @ '' Last updated: '' @ now,
                           link = None, bold = None, italic = None, color = None \<rparr>]
                 emoji_map ''blue_background''
               # Divider # blocks
           \<and> (out = Returned \<longrightarrow> rest = [])"
  using updateSitemapPage_written[OF assms] by (auto simp: metadataBlocks_def)

theorem updateSitemapPage_metadata_first_witness:
  "updateSitemapPage quiet_service ''1/5/2024, 10:00:00''
       [Heading_1 [], Bulleted_list_item []] \<lparr> existing = [], log = [] \<rparr> =
     (Returned,
      \<lparr> existing = [],
        log = [Appended
                 [Callout [\<lparr> content = ''Auto-generated sitemap '' @ emoji_bullet
                                         @ '' Last updated: 1/5/2024, 10:00:00'',
                              link = None, bold = None, italic = None, color = None \<rparr>]
                    emoji_map ''blue_background'',
                  Divider, Heading_1 [], Bulleted_list_item []]] \<rparr>)"
proof -
  obtain out st' where
    r: "updateSitemapPage quiet_service ''1/5/2024, 10:00:00''
          [Heading_1 [], Bulleted_list_item []] \<lparr> existing = [], log = [] \<rparr> = (out, st')"
    by (cases "updateSitemapPage quiet_service ''1/5/2024, 10:00:00''
          [Heading_1 [], Bulleted_list_item []] \<lparr> existing = [], log = [] \<rparr>") blast
  have e: "updateSitemapPage quiet_service ''1/5/2024, 10:00:00''
       [Heading_1 [], Bulleted_list_item []] \<lparr> existing = [], log = [] \<rparr> =
     (Returned,
      \<lparr> existing = [],
        log = [Appended
                 [Callout [\<lparr> content = ''Auto-generated sitemap '' @ emoji_bullet
                                         @ '' Last updated: 1/5/2024, 10:00:00'',
                              link = None, bold = None, italic = None, color = None \<rparr>]
                    emoji_map ''blue_background'',
                  Divider, Heading_1 [], Bulleted_list_item []]] \<rparr>)"
    by code_simp
  from updateSitemapPage_metadata_first[OF r] e show ?thesis by simp
qed

end
